theory Spec2Isabelle
  imports Complex_Main
begin

section \<open>Python values used by the cache monitor\<close>

text \<open>
  The development embeds \<^verbatim>\<open>resources/tests/cache/dnshield_cache_monitor.py\<close>.
  Strings are lists of characters whose code points lie below 256; latencies and clock
  readings, which the script holds in floating point, are real numbers. The only float
  operations the script applies to them are a subtraction of clock readings, a scaling by
  1000 and by 0.5, and comparisons with the literals 5 and 10.
\<close>

datatype py_error = ValueError | IndexError | OSError

text \<open>\<^verbatim>\<open>sub in s\<close> on strings.\<close>

fun starts_with :: "string \<Rightarrow> string \<Rightarrow> bool" where
  "starts_with [] s = True"
| "starts_with (p # ps) [] = False"
| "starts_with (p # ps) (c # cs) = (p = c \<and> starts_with ps cs)"

fun contains :: "string \<Rightarrow> string \<Rightarrow> bool" where
  "contains sub [] = (sub = [])"
| "contains sub (c # cs) = (starts_with sub (c # cs) \<or> contains sub cs)"

text \<open>\<^verbatim>\<open>s.split(sep)\<close> for a separator of one character: never an empty list.\<close>

fun split_on :: "char \<Rightarrow> string \<Rightarrow> string list" where
  "split_on sep [] = [[]]"
| "split_on sep (c # cs) =
     (if c = sep then [] # split_on sep cs
      else (case split_on sep cs of
              [] \<Rightarrow> [[c]]
            | w # ws \<Rightarrow> (c # w) # ws))"

text \<open>\<^verbatim>\<open>s.split(sep, 1)[-1]\<close>: what follows the first separator, or all of
  \<^verbatim>\<open>s\<close> when it has none.\<close>

fun split1_last :: "char \<Rightarrow> string \<Rightarrow> string" where
  "split1_last sep s =
     (case dropWhile (\<lambda>c. c \<noteq> sep) s of
        [] \<Rightarrow> s
      | c # rest \<Rightarrow> rest)"

text \<open>\<^verbatim>\<open>s.strip(chars)\<close> and \<^verbatim>\<open>s.strip()\<close>.\<close>

definition strip_chars :: "string \<Rightarrow> string \<Rightarrow> string" where
  "strip_chars chars s =
     rev (dropWhile (\<lambda>c. c \<in> set chars) (rev (dropWhile (\<lambda>c. c \<in> set chars) s)))"

definition whitespace :: string where
  "whitespace = map char_of [9, 10, 11, 12, 13, 28, 29, 30, 31, 32, 133, 160 :: nat]"

definition strip :: "string \<Rightarrow> string" where
  "strip s = strip_chars whitespace s"

text \<open>\<^verbatim>\<open>int(s)\<close> in base 10: surrounding whitespace, one optional sign, decimal digits
  with single underscores between them. Anything else raises \<^verbatim>\<open>ValueError\<close>. The
  interpreter's optional cap on the number of digits is not part of the model.\<close>

definition is_digit :: "char \<Rightarrow> bool" where
  "is_digit c = (48 \<le> (of_char c :: nat) \<and> (of_char c :: nat) \<le> 57)"

fun int_body :: "bool \<Rightarrow> nat \<Rightarrow> string \<Rightarrow> nat option" where
  "int_body after_digit acc [] = (if after_digit then Some acc else None)"
| "int_body after_digit acc (c # cs) =
     (if is_digit c then int_body True (acc * 10 + (of_char c - 48)) cs
      else if c = CHR ''_'' \<and> after_digit then int_body False acc cs
      else None)"

definition py_int :: "string \<Rightarrow> py_error + int" where
  "py_int s =
     (let t = strip s;
          (neg, body) = (case t of
                           [] \<Rightarrow> (False, [])
                         | c # cs \<Rightarrow> if c = CHR ''-'' then (True, cs)
                                     else if c = CHR ''+'' then (False, cs)
                                     else (False, c # cs))
      in case int_body False 0 body of
           None \<Rightarrow> Inl ValueError
         | Some n \<Rightarrow> Inr (if neg then - int n else int n))"

section \<open>Cache rule lookup: \<^verbatim>\<open>get_cache_rule\<close>\<close>

text \<open>What \<^verbatim>\<open>subprocess.run\<close> does: the process completes with a return code and its
  two output texts, the timeout expires, or the call raises something else (the
  executable is missing, the run is interrupted).\<close>

datatype proc_outcome =
    Completed (returncode: int) (stdout: string) (stderr: string)
  | TimeoutExpired
  | Raised

text \<open>The dictionary \<^verbatim>\<open>rule_info\<close>, with its two possible keys.\<close>

record rule_info =
  action :: "string option"
  ttl :: "int option"

definition empty_rule :: rule_info where
  "empty_rule = \<lparr>action = None, ttl = None\<rparr>"

text \<open>\<^verbatim>\<open>lines[j].split('=')[1]\<close>.\<close>

definition field_value :: "string \<Rightarrow> py_error + string" where
  "field_value l =
     (case split_on CHR ''='' l of
        a # b # rest \<Rightarrow> Inr b
      | _ \<Rightarrow> Inl IndexError)"

text \<open>The body of the inner loop, for one line of the window.\<close>

definition collect_line :: "string \<Rightarrow> rule_info \<Rightarrow> py_error + rule_info" where
  "collect_line l r =
     (if contains ''action'' l then
        (case field_value l of
           Inl e \<Rightarrow> Inl e
         | Inr v \<Rightarrow> Inr (r\<lparr>action := Some (strip_chars [CHR '' '', CHR 0x22, CHR '';''] v)\<rparr>))
      else if contains ''ttl'' l then
        (case field_value l of
           Inl e \<Rightarrow> Inl e
         | Inr v \<Rightarrow>
             (case py_int (strip_chars [CHR '' '', CHR '';''] v) of
                Inl e \<Rightarrow> Inl e
              | Inr n \<Rightarrow> Inr (r\<lparr>ttl := Some n\<rparr>)))
      else Inr r)"

text \<open>\<^verbatim>\<open>for j in range(i, min(i+5, len(lines)))\<close>, as a recursion over the indices.\<close>

fun collect_window :: "string list \<Rightarrow> nat list \<Rightarrow> rule_info \<Rightarrow> py_error + rule_info" where
  "collect_window lines [] r = Inr r"
| "collect_window lines (j # js) r =
     (case collect_line (lines ! j) r of
        Inl e \<Rightarrow> Inl e
      | Inr r' \<Rightarrow> collect_window lines js r')"

text \<open>The same collection written over the lines of a window themselves, one after the
  other, for comparison with the indexed loop.\<close>

fun collect_lines :: "string list \<Rightarrow> rule_info \<Rightarrow> py_error + rule_info" where
  "collect_lines [] r = Inr r"
| "collect_lines (l # ls) r =
     (case collect_line l r of
        Inl e \<Rightarrow> Inl e
      | Inr r' \<Rightarrow> collect_lines ls r')"

text \<open>The test that selects a line.\<close>

definition line_matches :: "string \<Rightarrow> string \<Rightarrow> bool" where
  "line_matches domain l =
     (contains domain l \<or> contains (''*.'' @ split1_last CHR ''.'' domain) l)"

text \<open>\<^verbatim>\<open>for i, line in enumerate(lines)\<close>: the first selected line decides the result;
  when no line is selected the loop ends and the function returns \<^verbatim>\<open>None\<close>.\<close>

fun scan_lines :: "string \<Rightarrow> string list \<Rightarrow> nat \<Rightarrow> string list \<Rightarrow> py_error + rule_info option" where
  "scan_lines domain lines i [] = Inr None"
| "scan_lines domain lines i (l # rest) =
     (if line_matches domain l then
        (case collect_window lines [i ..< min (i + 5) (length lines)] empty_rule of
           Inl e \<Rightarrow> Inl e
         | Inr r \<Rightarrow> Inr (Some r))
      else scan_lines domain lines (i + 1) rest)"

text \<open>The statements inside \<^verbatim>\<open>try\<close>. A raising \<^verbatim>\<open>subprocess.run\<close> raises here too;
  a nonzero return code falls through to the final \<^verbatim>\<open>return None\<close>.\<close>

definition get_cache_rule_try :: "proc_outcome \<Rightarrow> string \<Rightarrow> py_error + rule_info option" where
  "get_cache_rule_try run domain =
     (case run of
        Completed rc out err \<Rightarrow>
          if rc = 0 then
            (let lines = split_on (CHR 0x0A) (strip out)
             in scan_lines domain lines 0 lines)
          else Inr None
      | TimeoutExpired \<Rightarrow> Inl OSError
      | Raised \<Rightarrow> Inl OSError)"

text \<open>The whole function: the bare \<^verbatim>\<open>except: pass\<close> turns every exception into the
  final \<^verbatim>\<open>return None\<close>. The argument \<^verbatim>\<open>run\<close> is the outcome of
  \<^verbatim>\<open>defaults read com.dnshield.app DomainCacheRules\<close>.\<close>

definition get_cache_rule :: "proc_outcome \<Rightarrow> string \<Rightarrow> py_error + rule_info option" where
  "get_cache_rule run domain =
     (case get_cache_rule_try run domain of
        Inl e \<Rightarrow> Inr None
      | Inr r \<Rightarrow> Inr r)"

section \<open>One probe: \<^verbatim>\<open>query_dns\<close>\<close>

text \<open>The dictionary a probe returns. \<^verbatim>\<open>result\<close> and \<^verbatim>\<open>error\<close> may be \<^verbatim>\<open>None\<close>.\<close>

record sample =
  time_ms :: real
  result :: "string option"
  error :: "string option"

text \<open>\<^verbatim>\<open>query_dns\<close>, given the two clock readings (in seconds) and the outcome of running
  \<^verbatim>\<open>dig\<close> with \<^verbatim>\<open>timeout=5\<close>. Only \<^verbatim>\<open>TimeoutExpired\<close> is caught.\<close>

definition query_dns :: "real \<Rightarrow> real \<Rightarrow> proc_outcome \<Rightarrow> py_error + sample" where
  "query_dns start finish run =
     (case run of
        Completed rc out err \<Rightarrow>
          Inr \<lparr>time_ms = (finish - start) * 1000,
               result = Some (strip out),
               error = (if rc \<noteq> 0 then Some (strip err) else None)\<rparr>
      | TimeoutExpired \<Rightarrow> Inr \<lparr>time_ms = 5000, result = None, error = Some ''Timeout''\<rparr>
      | Raised \<Rightarrow> Inl OSError)"

text \<open>The label printed for a probe. The specification names three classes; the script
  computes its label from the latency alone and has no statement that yields \<^verbatim>\<open>Error\<close>.\<close>

datatype classification = Cached | Fresh | Error

definition cache_indicator :: "sample \<Rightarrow> classification" where
  "cache_indicator s = (if time_ms s < 5 then Cached else Fresh)"

text \<open>\<^verbatim>\<open>"ok" if result['result'] else "failed"\<close>: truth of an optional string.\<close>

definition answer_present :: "sample \<Rightarrow> bool" where
  "answer_present s = (case result s of None \<Rightarrow> False | Some a \<Rightarrow> a \<noteq> [])"

section \<open>The environment\<close>

text \<open>The configuration store behind the \<^verbatim>\<open>defaults\<close> tool, the answers of successive
  \<^verbatim>\<open>dig\<close> runs with the clock readings around them, and a log of what the script did.
  A stored boolean reads back as \<^verbatim>\<open>1\<close> or \<^verbatim>\<open>0\<close>; a missing key makes
  \<^verbatim>\<open>defaults read\<close> exit with status 1. Writes are taken to succeed.\<close>

datatype config_key = EnableDNSCache | UserCanAdjustCache | DomainCacheRules

datatype event = Query string | Sleep real | Write_flag config_key bool

record world =
  store :: "config_key \<Rightarrow> string option"
  dig :: "nat \<Rightarrow> real \<times> real \<times> proc_outcome"
  issued :: nat
  events :: "event list"

definition defaults_read :: "world \<Rightarrow> config_key \<Rightarrow> proc_outcome" where
  "defaults_read w k =
     (case store w k of
        None \<Rightarrow> Completed 1 [] ''does not exist''
      | Some v \<Rightarrow> Completed 0 (v @ [CHR 0x0A]) [])"

definition defaults_write_bool :: "config_key \<Rightarrow> bool \<Rightarrow> world \<Rightarrow> world" where
  "defaults_write_bool k b w =
     w\<lparr>store := (store w)(k \<mapsto> (if b then ''1'' else ''0'')),
       events := events w @ [Write_flag k b]\<rparr>"

definition sleep :: "real \<Rightarrow> world \<Rightarrow> world" where
  "sleep d w = w\<lparr>events := events w @ [Sleep d]\<rparr>"

text \<open>What the \<^verbatim>\<open>k\<close>-th call of \<^verbatim>\<open>query_dns\<close> returns in a world.\<close>

definition nth_sample :: "world \<Rightarrow> nat \<Rightarrow> py_error + sample" where
  "nth_sample w k = (case dig w k of (start, finish, run) \<Rightarrow> query_dns start finish run)"

definition run_query :: "string \<Rightarrow> world \<Rightarrow> (py_error + sample) \<times> world" where
  "run_query domain w =
     (nth_sample w (issued w),
      w\<lparr>issued := issued w + 1, events := events w @ [Query domain]\<rparr>)"

section \<open>The quick test: \<^verbatim>\<open>test_domain_cache\<close>\<close>

datatype verdict = Confirmed | NotDetected | Inconsistent

text \<open>The final \<^verbatim>\<open>if len(times) > 1\<close> block; \<^verbatim>\<open>None\<close> when nothing is printed.\<close>

definition detect_caching :: "real list \<Rightarrow> verdict option" where
  "detect_caching tms =
     (if length tms > 1 then
        (let first_query = hd tms; subsequent = tl tms
         in if list_all (\<lambda>t. t < first_query * 0.5) subsequent then Some Confirmed
            else if list_all (\<lambda>t. t > 10) tms then Some NotDetected
            else Some Inconsistent)
      else None)"

text \<open>\<^verbatim>\<open>min\<close>, \<^verbatim>\<open>max\<close>, \<^verbatim>\<open>statistics.mean\<close> and \<^verbatim>\<open>statistics.median\<close>; the first of
  them raises on an empty list.\<close>

definition median :: "real list \<Rightarrow> real" where
  "median xs =
     (let data = sort xs; n = length data
      in if n mod 2 = 1 then data ! (n div 2)
         else (data ! (n div 2 - 1) + data ! (n div 2)) / 2)"

definition statistics :: "real list \<Rightarrow> py_error + real \<times> real \<times> real \<times> real" where
  "statistics tms =
     (case tms of
        [] \<Rightarrow> Inl ValueError
      | t # ts \<Rightarrow>
          Inr (foldl min t ts, foldl max t ts,
               sum_list tms / real (length tms), median tms))"

text \<open>One printed query line: number, latency, label, whether an answer came back.\<close>

type_synonym query_line = "int \<times> real \<times> classification \<times> bool"

definition query_line_of :: "int \<Rightarrow> sample \<Rightarrow> query_line" where
  "query_line_of i s = (i + 1, time_ms s, cache_indicator s, answer_present s)"

text \<open>The \<^verbatim>\<open>for i in range(iterations)\<close> loop, over the remaining values of \<^verbatim>\<open>i\<close>.\<close>

fun query_loop ::
  "string \<Rightarrow> int \<Rightarrow> real \<Rightarrow> int list \<Rightarrow> real list \<times> query_line list \<Rightarrow> world
     \<Rightarrow> (py_error + real list \<times> query_line list) \<times> world" where
  "query_loop domain iterations delay [] acc w = (Inr acc, w)"
| "query_loop domain iterations delay (i # rest) acc w =
     (case run_query domain w of
        (Inl e, w1) \<Rightarrow> (Inl e, w1)
      | (Inr s, w1) \<Rightarrow>
          query_loop domain iterations delay rest
            (fst acc @ [time_ms s], snd acc @ [query_line_of i s])
            (if i < iterations - 1 then sleep delay w1 else w1))"

definition range :: "int \<Rightarrow> int list" where
  "range n = map int [0 ..< nat n]"

text \<open>\<^verbatim>\<open>if rule:\<close> holds for a dictionary with at least one key.\<close>

definition truthy :: "rule_info option \<Rightarrow> bool" where
  "truthy rule = (case rule of None \<Rightarrow> False | Some r \<Rightarrow> action r \<noteq> None \<or> ttl r \<noteq> None)"

record report =
  cache_enabled :: string
  cache_rule :: "rule_info option"
  queries :: "query_line list"
  summary :: "real \<times> real \<times> real \<times> real"
  detected :: "verdict option"

text \<open>The header of the report. \<^verbatim>\<open>cache_rule = None\<close> stands for the line
  \<^verbatim>\<open>Cache Rule: Default (300s TTL)\<close>.\<close>

definition cache_enabled_text :: "world \<Rightarrow> string" where
  "cache_enabled_text w =
     (case defaults_read w EnableDNSCache of
        Completed rc out err \<Rightarrow>
          if rc = 0 then strip out @ '' (managed)''
          else (case defaults_read w UserCanAdjustCache of
                  Completed rc2 out2 err2 \<Rightarrow> if rc2 = 0 then strip out2 else ''0''
                | _ \<Rightarrow> ''0'')
      | _ \<Rightarrow> ''0'')"

definition printed_rule :: "rule_info option \<Rightarrow> rule_info option" where
  "printed_rule rule = (if truthy rule then rule else None)"

definition test_domain_cache ::
  "string \<Rightarrow> int \<Rightarrow> real \<Rightarrow> world \<Rightarrow> (py_error + report) \<times> world" where
  "test_domain_cache domain iterations delay w =
     (case get_cache_rule (defaults_read w DomainCacheRules) domain of
        Inl e \<Rightarrow> (Inl e, w)
      | Inr rule \<Rightarrow>
          (case query_loop domain iterations delay (range iterations) ([], []) w of
             (Inl e, w1) \<Rightarrow> (Inl e, w1)
           | (Inr (tms, ls), w1) \<Rightarrow>
               (case statistics tms of
                  Inl e \<Rightarrow> (Inl e, w1)
                | Inr st \<Rightarrow>
                    (Inr \<lparr>cache_enabled = cache_enabled_text w,
                          cache_rule = printed_rule rule,
                          queries = ls,
                          summary = st,
                          detected = detect_caching tms\<rparr>, w1))))"

section \<open>The TTL monitor: \<^verbatim>\<open>monitor_cache_ttl\<close>\<close>

text \<open>The test of line 144 that guards the expiry message.\<close>

definition near_expiry :: "real \<Rightarrow> int \<Rightarrow> bool" where
  "near_expiry elapsed expected_ttl =
     (elapsed > real_of_int expected_ttl - 5 \<and> elapsed < real_of_int expected_ttl + 5)"

record observation =
  seen_at :: real
  latency :: real
  status :: classification
  expiry_logged :: bool

text \<open>One pass through the body of the \<^verbatim>\<open>while\<close> loop: the counters
  \<^verbatim>\<open>(query_count, cache_hits)\<close> and the line printed.\<close>

definition monitor_step ::
  "int \<Rightarrow> real \<Rightarrow> sample \<Rightarrow> nat \<times> nat \<Rightarrow> observation \<times> nat \<times> nat" where
  "monitor_step expected_ttl elapsed s counts =
     (case counts of
        (query_count, cache_hits) \<Rightarrow>
          if time_ms s < 5 then
            (\<lparr>seen_at = elapsed, latency = time_ms s, status = Cached, expiry_logged = False\<rparr>,
             query_count + 1, cache_hits + 1)
          else
            (\<lparr>seen_at = elapsed, latency = time_ms s, status = Fresh,
              expiry_logged = near_expiry elapsed expected_ttl\<rparr>,
             query_count + 1, cache_hits))"

section \<open>The command dispatch: \<^verbatim>\<open>main\<close>\<close>

text \<open>\<^verbatim>\<open>ttl = rule.get('ttl', 300) if rule else 300\<close>.\<close>

definition monitor_ttl :: "rule_info option \<Rightarrow> int" where
  "monitor_ttl rule =
     (if truthy rule then
        (case rule of
           Some r \<Rightarrow> (case ttl r of Some n \<Rightarrow> n | None \<Rightarrow> 300)
         | None \<Rightarrow> 300)
      else 300)"

text \<open>The \<^verbatim>\<open>compare\<close> branch: a test, the write of \<^verbatim>\<open>NO\<close>, a pause, a second test, the
  write of \<^verbatim>\<open>YES\<close>. There is no \<^verbatim>\<open>try\<close>: an exception leaves at the point where it
  is raised.\<close>

definition compare :: "string \<Rightarrow> world \<Rightarrow> (py_error + report \<times> report) \<times> world" where
  "compare domain w =
     (case test_domain_cache domain 5 0.1 w of
        (Inl e, w1) \<Rightarrow> (Inl e, w1)
      | (Inr r1, w1) \<Rightarrow>
          (let w2 = defaults_write_bool UserCanAdjustCache False w1;
               w3 = sleep 2 w2
           in case test_domain_cache domain 5 0.1 w3 of
                (Inl e, w4) \<Rightarrow> (Inl e, w4)
              | (Inr r2, w4) \<Rightarrow>
                  (Inr (r1, r2), defaults_write_bool UserCanAdjustCache True w4)))"

section \<open>Concrete inputs\<close>

text \<open>A probe that failed fast: \<^verbatim>\<open>dig\<close> exited with a nonzero status after 3 ms.\<close>

definition refused_sample :: sample where
  "refused_sample = \<lparr>time_ms = 3, result = Some [], error = Some ''connection refused''\<rparr>"

text \<open>A world where user-adjustable caching is switched off, no rules are configured and
  every \<^verbatim>\<open>dig\<close> run answers after one millisecond.\<close>

definition steady_world :: world where
  "steady_world =
     \<lparr>store = (\<lambda>k. None)(UserCanAdjustCache \<mapsto> ''0''),
      dig = (\<lambda>k. (0, 1 / 1000, Completed 0 ''93.184.216.34'' [])),
      issued = 0, events = []\<rparr>"

text \<open>A world with no configuration where the second \<^verbatim>\<open>dig\<close> run times out.\<close>

definition flaky_world :: world where
  "flaky_world =
     \<lparr>store = (\<lambda>k. None),
      dig = (\<lambda>k. if k = 1 then (0, 5, TimeoutExpired)
                  else (0, 1 / 1000, Completed 0 ''93.184.216.34'' [])),
      issued = 0, events = []\<rparr>"

text \<open>A world with no configuration where the second \<^verbatim>\<open>dig\<close> run raises.\<close>

definition raising_world :: world where
  "raising_world =
     \<lparr>store = (\<lambda>k. None),
      dig = (\<lambda>k. if k = 1 then (0, 0, Raised)
                  else (0, 1 / 1000, Completed 0 ''93.184.216.34'' [])),
      issued = 0, events = []\<rparr>"

text \<open>A world where user-adjustable caching is switched on and the run is interrupted
  during the eighth \<^verbatim>\<open>dig\<close> run.\<close>

definition interrupted_world :: world where
  "interrupted_world =
     \<lparr>store = (\<lambda>k. None)(UserCanAdjustCache \<mapsto> ''1''),
      dig = (\<lambda>k. if k < 7 then (0, 1 / 1000, Completed 0 ''93.184.216.34'' [])
                  else (0, 0, Raised)),
      issued = 0, events = []\<rparr>"

text \<open>Configuration texts, as \<^verbatim>\<open>defaults read\<close> prints a dictionary: one line per entry.\<close>

definition text_of_lines :: "string list \<Rightarrow> string" where
  "text_of_lines ls = concat (map (\<lambda>l. l @ [CHR 0x0A]) ls)"


definition quoted_ttl_text :: string where
  \<open>quoted_ttl_text = text_of_lines
     [''{'',
      ''    "*.example.com" =     {'',
      ''        action = "block";'',
      ''        ttl = "120";'',
      ''    };'',
      ''}'']\<close>

definition bare_rule_text :: string where
  \<open>bare_rule_text = text_of_lines
     [''{'',
      ''    "*.example.com" =     {'',
      ''        enabled = 1;'',
      ''    };'',
      ''}'']\<close>

section \<open>Labels of single probes\<close>

lemma query_loop_lines:
  assumes "query_loop domain iterations delay idxs acc w = (Inr acc', w')"
    and "\<And>i s. P (query_line_of i s)"
    and "list_all P (snd acc)"
  shows "list_all P (snd acc')"
  using assms(1,3)
proof (induction idxs arbitrary: acc w)
  case Nil
  then show ?case by simp
next
  case (Cons i rest)
  obtain r w1 where rq: "run_query domain w = (r, w1)" by (cases "run_query domain w")
  show ?case
  proof (cases r)
    case (Inl e)
    with Cons.prems rq show ?thesis by simp
  next
    case (Inr s)
    with Cons.prems(1) rq have step:
      "query_loop domain iterations delay rest
         (fst acc @ [time_ms s], snd acc @ [query_line_of i s])
         (if i < iterations - 1 then sleep delay w1 else w1) = (Inr acc', w')"
      by simp
    have inv: "list_all P (snd (fst acc @ [time_ms s], snd acc @ [query_line_of i s]))"
      using Cons.prems(2) assms(2) by simp
    from Cons.IH [OF step inv] show ?thesis .
  qed
qed

text \<open>
  Claim C2, as the script has it. The label of a probe is computed from its latency alone:
  \<^verbatim>\<open>Cached\<close> exactly below 5 ms and \<^verbatim>\<open>Fresh\<close> exactly from 5 ms on, whatever the
  error text is, and never \<^verbatim>\<open>Error\<close>. The TTL monitor prints the same label, and so
  does every query line of a quick test.
\<close>

theorem label_from_latency_only:
  "(cache_indicator s = Cached \<longleftrightarrow> time_ms s < 5) \<and>
   (cache_indicator s = Fresh \<longleftrightarrow> 5 \<le> time_ms s) \<and>
   cache_indicator s \<noteq> Error \<and>
   status (fst (monitor_step expected_ttl elapsed s counts)) = cache_indicator s \<and>
   (test_domain_cache domain iterations delay w = (Inr rep, w') \<longrightarrow>
      (\<forall>q \<in> set (queries rep).
         fst (snd (snd q)) = (if fst (snd q) < 5 then Cached else Fresh)))"
proof -
  have a: "(cache_indicator s = Cached \<longleftrightarrow> time_ms s < 5) \<and>
     (cache_indicator s = Fresh \<longleftrightarrow> 5 \<le> time_ms s) \<and> cache_indicator s \<noteq> Error"
    by (simp add: cache_indicator_def)
  have b: "status (fst (monitor_step expected_ttl elapsed s counts)) = cache_indicator s"
    by (cases counts) (simp add: monitor_step_def cache_indicator_def)
  have c: "\<forall>q \<in> set (queries rep).
         fst (snd (snd q)) = (if fst (snd q) < 5 then Cached else Fresh)"
    if run: "test_domain_cache domain iterations delay w = (Inr rep, w')"
  proof -
    obtain res w1 where ql:
      "query_loop domain iterations delay (range iterations) ([], []) w = (res, w1)"
      by (cases "query_loop domain iterations delay (range iterations) ([], []) w")
    from run ql obtain acc' where res: "res = Inr acc'" and q: "queries rep = snd acc'"
      by (auto simp: test_domain_cache_def split: sum.splits prod.splits)
    from ql res have loop:
      "query_loop domain iterations delay (range iterations) ([], []) w = (Inr acc', w1)"
      by simp
    have "list_all (\<lambda>q. fst (snd (snd q)) = (if fst (snd q) < 5 then Cached else Fresh))
            (snd acc')"
      by (rule query_loop_lines [OF loop]) (simp_all add: cache_indicator_def query_line_of_def)
    with q show ?thesis by (simp add: list_all_iff)
  qed
  from a b c show ?thesis by blast
qed

theorem label_from_latency_only_witness:
  "cache_indicator refused_sample = Cached \<and>
   status (fst (monitor_step 30 28 refused_sample (0, 0))) = Cached \<and>
   map (\<lambda>q. fst (snd (snd q)))
     (queries (projr (fst (test_domain_cache ''example.com'' 2 (1 / 10) steady_world)))) =
   [Cached, Cached]"
proof -
  have lat: "time_ms refused_sample < 5" by (simp add: refused_sample_def)
  have run: "map (\<lambda>q. fst (snd (snd q)))
     (queries (projr (fst (test_domain_cache ''example.com'' 2 (1 / 10) steady_world)))) =
     [Cached, Cached]"
    by code_simp
  from label_from_latency_only [of refused_sample 30 28 "(0, 0)"] lat run
  show ?thesis by simp
qed

text \<open>
  Claim C2 as stated fails: a probe with a non-empty error text and a latency of 3 ms is
  labelled \<^verbatim>\<open>Cached\<close>, not \<^verbatim>\<open>Error\<close>.
\<close>

theorem error_text_ignored_counterexample:
  "the (error refused_sample) \<noteq> [] \<and> cache_indicator refused_sample = Cached \<and> Cached \<noteq> Error"
  by (simp add: refused_sample_def cache_indicator_def)

text \<open>
  Claim C5, as the script has it. When the run of \<^verbatim>\<open>dig\<close> times out, the probe is the
  sentinel with latency 5000, no answer and error text \<^verbatim>\<open>Timeout\<close>; its label is
  \<^verbatim>\<open>Fresh\<close>, so it is never taken for a cache hit, and it is printed as unanswered.
\<close>

theorem timeout_sentinel:
  "query_dns start finish TimeoutExpired =
     Inr \<lparr>time_ms = 5000, result = None, error = Some ''Timeout''\<rparr> \<and>
   cache_indicator \<lparr>time_ms = 5000, result = None, error = Some ''Timeout''\<rparr> = Fresh \<and>
   \<not> answer_present \<lparr>time_ms = 5000, result = None, error = Some ''Timeout''\<rparr>"
  by (simp add: query_dns_def cache_indicator_def answer_present_def)

theorem timeout_sentinel_witness:
  "map_sum id cache_indicator (query_dns 0 5 TimeoutExpired) = Inr Fresh"
  using timeout_sentinel [of 0 5] by simp

text \<open>
  Claim C5 as stated fails: the label of the timeout sentinel is not \<^verbatim>\<open>Error\<close>.
\<close>

theorem timeout_not_error_counterexample:
  "map_sum id cache_indicator (query_dns 0 5 TimeoutExpired) \<noteq> Inr Error"
  by (simp add: query_dns_def cache_indicator_def)

section \<open>The caching verdict\<close>

lemma list_all_nth_tl:
  "list_all P (tl xs) \<longleftrightarrow> (\<forall>i. 0 < i \<and> i < length xs \<longrightarrow> P (xs ! i))"
proof (cases xs)
  case Nil
  then show ?thesis by simp
next
  case (Cons x rest)
  have "(\<forall>i. 0 < i \<and> i < Suc (length rest) \<longrightarrow> P ((x # rest) ! i)) \<longleftrightarrow>
        (\<forall>j < length rest. P (rest ! j))"
  proof
    assume h: "\<forall>i. 0 < i \<and> i < Suc (length rest) \<longrightarrow> P ((x # rest) ! i)"
    show "\<forall>j < length rest. P (rest ! j)"
    proof (intro allI impI)
      fix j assume "j < length rest"
      with h have "P ((x # rest) ! Suc j)" by blast
      then show "P (rest ! j)" by simp
    qed
  next
    assume h: "\<forall>j < length rest. P (rest ! j)"
    show "\<forall>i. 0 < i \<and> i < Suc (length rest) \<longrightarrow> P ((x # rest) ! i)"
    proof (intro allI impI)
      fix i assume i: "0 < i \<and> i < Suc (length rest)"
      then obtain j where "i = Suc j" by (cases i) auto
      with i h show "P ((x # rest) ! i)" by simp
    qed
  qed
  with Cons show ?thesis by (simp add: list_all_length)
qed

text \<open>
  Claim C6, with its example put right. The verdict is \<^verbatim>\<open>Confirmed\<close> if and only if
  there is more than one latency and every latency after the first is strictly below half
  of the first. The latencies 0.8, 0.3, 0.2, 0.4 give \<^verbatim>\<open>Inconsistent\<close>: the last one
  equals half of the first and is not below it. (Halving is exact in binary floating
  point, so the script compares the same two numbers.)
\<close>

theorem confirmed_iff:
  "(detect_caching ts = Some Confirmed \<longleftrightarrow>
      length ts > 1 \<and> (\<forall>i. 0 < i \<and> i < length ts \<longrightarrow> ts ! i < 0.5 * ts ! 0)) \<and>
   detect_caching [0.8, 0.3, 0.2, 0.4] = Some Inconsistent"
proof -
  have "detect_caching ts = Some Confirmed \<longleftrightarrow>
      length ts > 1 \<and> list_all (\<lambda>t. t < hd ts * 0.5) (tl ts)"
    by (simp add: detect_caching_def Let_def)
  also have "\<dots> \<longleftrightarrow> length ts > 1 \<and> (\<forall>i. 0 < i \<and> i < length ts \<longrightarrow> ts ! i < hd ts * 0.5)"
    unfolding list_all_nth_tl ..
  also have "\<dots> \<longleftrightarrow> length ts > 1 \<and> (\<forall>i. 0 < i \<and> i < length ts \<longrightarrow> ts ! i < 0.5 * ts ! 0)"
  proof (cases "length ts > 1")
    case True
    then have "hd ts = ts ! 0" by (cases ts) simp_all
    then show ?thesis by (simp add: mult.commute)
  next
    case False
    then show ?thesis by simp
  qed
  finally have a: "detect_caching ts = Some Confirmed \<longleftrightarrow>
      length ts > 1 \<and> (\<forall>i. 0 < i \<and> i < length ts \<longrightarrow> ts ! i < 0.5 * ts ! 0)" .
  have b: "detect_caching [0.8, 0.3, 0.2, 0.4] = Some Inconsistent"
    by (simp add: detect_caching_def)
  from a b show ?thesis by blast
qed

theorem confirmed_iff_witness:
  "detect_caching [8, 3, 2, 3.5] = Some Confirmed \<and>
   detect_caching [0.8, 0.3, 0.2, 0.4] = Some Inconsistent"
  using confirmed_iff [of "[8, 3, 2, 3.5]"] by (simp add: detect_caching_def)

text \<open>
  Claim C6 as stated fails on its own example: 0.8, 0.3, 0.2, 0.4 is not \<^verbatim>\<open>Confirmed\<close>.
\<close>

theorem scenario_a_counterexample:
  "detect_caching [0.8, 0.3, 0.2, 0.4] \<noteq> Some Confirmed"
  by (simp add: detect_caching_def)

text \<open>
  Claim C3, as the script has it. The test for \<^verbatim>\<open>Confirmed\<close> comes first, so for more
  than one latency the verdict is \<^verbatim>\<open>NotDetected\<close> if and only if every latency is
  above 10 and some latency after the first is at least half of the first.
\<close>

theorem not_detected_iff:
  "length ts > 1 \<Longrightarrow>
   (detect_caching ts = Some NotDetected \<longleftrightarrow>
      (\<forall>t \<in> set ts. t > 10) \<and> (\<exists>t \<in> set (tl ts). t \<ge> 0.5 * hd ts))"
  by (auto simp: detect_caching_def Let_def list_all_iff not_less mult.commute)

theorem not_detected_iff_witness:
  "length [12, 15, 11, 14 :: real] > 1 \<and> detect_caching [12, 15, 11, 14] = Some NotDetected"
  using not_detected_iff [of "[12, 15, 11, 14]"] by simp

text \<open>
  Claim C3 as stated fails: in 100, 20, 30 every latency is above 10, and the verdict is
  \<^verbatim>\<open>Confirmed\<close>.
\<close>

theorem all_slow_but_confirmed_counterexample:
  "length [100, 20, 30 :: real] > 1 \<and> (10::real) < 100 \<and> (10::real) < 20 \<and> (10::real) < 30 \<and>
   detect_caching [100, 20, 30] = Some Confirmed \<and> Confirmed \<noteq> NotDetected"
  by (simp add: detect_caching_def)

section \<open>The expiry window of the TTL monitor\<close>

text \<open>
  Claim C9, as the script has it. The monitor marks an observation as the expected expiry
  exactly when its probe took 5 ms or more and the time since the start is strictly less
  than 5 seconds away from the expected TTL. With an expected TTL of 30, a probe of 40 ms
  is marked at 28 seconds and not at 10 seconds; a probe of 1 ms at 28 seconds is not
  marked.
\<close>

theorem expiry_logged_iff:
  "(expiry_logged (fst (monitor_step expected_ttl elapsed s counts)) \<longleftrightarrow>
      5 \<le> time_ms s \<and> \<bar>elapsed - real_of_int expected_ttl\<bar> < 5) \<and>
   expiry_logged (fst (monitor_step 30 28
     \<lparr>time_ms = 40, result = Some ''93.184.216.34'', error = None\<rparr> counts)) \<and>
   \<not> expiry_logged (fst (monitor_step 30 10
     \<lparr>time_ms = 40, result = Some ''93.184.216.34'', error = None\<rparr> counts)) \<and>
   \<not> expiry_logged (fst (monitor_step 30 28
     \<lparr>time_ms = 1, result = Some ''93.184.216.34'', error = None\<rparr> counts))"
  by (cases counts) (auto simp: near_expiry_def monitor_step_def)

theorem expiry_logged_iff_witness:
  "expiry_logged (fst (monitor_step 30 28
     \<lparr>time_ms = 40, result = Some ''93.184.216.34'', error = None\<rparr> (2, 2))) \<and>
   \<not> expiry_logged (fst (monitor_step 30 10
     \<lparr>time_ms = 40, result = Some ''93.184.216.34'', error = None\<rparr> (2, 2))) \<and>
   \<not> expiry_logged (fst (monitor_step 30 28
     \<lparr>time_ms = 1, result = Some ''93.184.216.34'', error = None\<rparr> (2, 2)))"
  using expiry_logged_iff [of 30 28 "\<lparr>time_ms = 40, result = Some ''93.184.216.34'', error = None\<rparr>" "(2, 2)"]
  by simp

text \<open>
  Claim C9 as stated fails: an observation 2 seconds before the expected TTL whose probe
  took 1 ms is not marked, and neither is a slow one exactly 5 seconds before it.
\<close>

theorem cached_in_window_counterexample:
  "\<bar>28 - real_of_int 30\<bar> < 5 \<and>
   \<not> expiry_logged (fst (monitor_step 30 28
     \<lparr>time_ms = 1, result = Some ''93.184.216.34'', error = None\<rparr> (0, 0))) \<and>
   \<bar>25 - real_of_int 30\<bar> \<le> 5 \<and>
   \<not> expiry_logged (fst (monitor_step 30 25
     \<lparr>time_ms = 40, result = Some ''93.184.216.34'', error = None\<rparr> (0, 0)))"
  by (simp add: near_expiry_def monitor_step_def)

section \<open>The query loop\<close>

lemma get_cache_rule_total: "\<exists>res. get_cache_rule run domain = Inr res"
  by (simp add: get_cache_rule_def split: sum.splits)

lemma nth_sample_same_dig: "dig w' = dig w \<Longrightarrow> nth_sample w' k = nth_sample w k"
  by (simp add: nth_sample_def)

lemma query_loop_run:
  assumes "\<forall>k < length idxs. \<not> isl (nth_sample w (issued w + k))"
  shows "\<exists>acc' w'. query_loop domain iterations delay idxs acc w = (Inr acc', w') \<and>
           fst acc' = fst acc @ map (\<lambda>k. time_ms (projr (nth_sample w k)))
                                  [issued w ..< issued w + length idxs] \<and>
           map fst (snd acc') = map fst (snd acc) @ map (\<lambda>i. i + 1) idxs \<and>
           map (fst \<circ> snd) (snd acc') = map (fst \<circ> snd) (snd acc) @
               map (\<lambda>k. time_ms (projr (nth_sample w k))) [issued w ..< issued w + length idxs] \<and>
           issued w' = issued w + length idxs \<and>
           dig w' = dig w \<and> store w' = store w \<and>
           events w' = events w @
             concat (map (\<lambda>i. if i < iterations - 1 then [Query domain, Sleep delay]
                               else [Query domain]) idxs)"
  using assms
proof (induction idxs arbitrary: acc w)
  case Nil
  then show ?case by simp
next
  case (Cons i rest)
  from Cons.prems have "\<not> isl (nth_sample w (issued w + 0))" by blast
  then obtain s where s: "nth_sample w (issued w) = Inr s"
    by (cases "nth_sample w (issued w)") simp_all
  define w1 where "w1 = w\<lparr>issued := issued w + 1, events := events w @ [Query domain]\<rparr>"
  define w2 where "w2 = (if i < iterations - 1 then sleep delay w1 else w1)"
  define acc2 where "acc2 = (fst acc @ [time_ms s], snd acc @ [query_line_of i s])"
  have w2: "issued w2 = issued w + 1" "dig w2 = dig w" "store w2 = store w"
    "events w2 = events w @ (if i < iterations - 1 then [Query domain, Sleep delay]
                             else [Query domain])"
    by (simp_all add: w2_def w1_def sleep_def)
  have step: "query_loop domain iterations delay (i # rest) acc w =
              query_loop domain iterations delay rest acc2 w2"
    by (simp add: run_query_def s w1_def w2_def acc2_def)
  have pre: "\<forall>k < length rest. \<not> isl (nth_sample w2 (issued w2 + k))"
  proof (intro allI impI)
    fix k assume "k < length rest"
    then have "Suc k < length (i # rest)" by simp
    with Cons.prems have "\<not> isl (nth_sample w (issued w + Suc k))" by blast
    then show "\<not> isl (nth_sample w2 (issued w2 + k))"
      by (simp add: w2 nth_sample_same_dig [OF w2(2)])
  qed
  from Cons.IH [OF pre, of acc2] obtain acc' w' where
    run: "query_loop domain iterations delay rest acc2 w2 = (Inr acc', w')" and
    tms: "fst acc' = fst acc2 @ map (\<lambda>k. time_ms (projr (nth_sample w2 k)))
                                  [issued w2 ..< issued w2 + length rest]" and
    idx: "map fst (snd acc') = map fst (snd acc2) @ map (\<lambda>i. i + 1) rest" and
    lat: "map (fst \<circ> snd) (snd acc') = map (fst \<circ> snd) (snd acc2) @
               map (\<lambda>k. time_ms (projr (nth_sample w2 k))) [issued w2 ..< issued w2 + length rest]" and
    fin: "issued w' = issued w2 + length rest" "dig w' = dig w2" "store w' = store w2" and
    evs: "events w' = events w2 @
             concat (map (\<lambda>i. if i < iterations - 1 then [Query domain, Sleep delay]
                               else [Query domain]) rest)"
    by blast
  have same: "(\<lambda>k. time_ms (projr (nth_sample w2 k))) = (\<lambda>k. time_ms (projr (nth_sample w k)))"
    by (simp add: nth_sample_same_dig [OF w2(2)])
  have upt: "[issued w ..< issued w + length (i # rest)] =
             issued w # [issued w2 ..< issued w2 + length rest]"
  proof -
    have "[issued w ..< issued w + Suc (length rest)] =
          issued w # [Suc (issued w) ..< issued w + Suc (length rest)]"
      by (rule upt_conv_Cons) simp
    then show ?thesis by (simp only: w2 list.size add_Suc_right add_Suc One_nat_def add_0_right add_0)
  qed
  have "fst acc' = fst acc @ map (\<lambda>k. time_ms (projr (nth_sample w k)))
                                  [issued w ..< issued w + length (i # rest)]"
    unfolding upt tms same by (simp add: acc2_def s)
  moreover have "map fst (snd acc') = map fst (snd acc) @ map (\<lambda>i. i + 1) (i # rest)"
    unfolding idx by (simp add: acc2_def query_line_of_def)
  moreover have "map (fst \<circ> snd) (snd acc') = map (fst \<circ> snd) (snd acc) @
               map (\<lambda>k. time_ms (projr (nth_sample w k))) [issued w ..< issued w + length (i # rest)]"
    unfolding upt lat same by (simp add: acc2_def s query_line_of_def)
  moreover have "issued w' = issued w + length (i # rest)" "dig w' = dig w" "store w' = store w"
    using fin w2 by simp_all
  moreover have "events w' = events w @
             concat (map (\<lambda>i. if i < iterations - 1 then [Query domain, Sleep delay]
                               else [Query domain]) (i # rest))"
    unfolding evs w2 by simp
  ultimately show ?case unfolding step using run by blast
qed

lemma map_all_same: "\<forall>x \<in> set xs. f x = c \<Longrightarrow> map f xs = replicate (length xs) c"
  by (induction xs) simp_all

lemma probe_trace:
  assumes "1 \<le> n"
  shows "concat (map (\<lambda>i. if i < n - 1 then [Query domain, Sleep delay] else [Query domain])
                     (range n)) =
         concat (replicate (nat n - 1) [Query domain, Sleep delay]) @ [Query domain]"
proof -
  let ?f = "\<lambda>i. if i < n - 1 then [Query domain, Sleep delay] else [Query domain]"
  from assms obtain m where m: "nat n = Suc m" by (cases "nat n") auto
  with assms have n: "n = int m + 1" by linarith
  have r: "range n = map int [0 ..< m] @ [int m]"
    by (simp add: range_def m)
  have "\<forall>x \<in> set (map int [0 ..< m]). ?f x = [Query domain, Sleep delay]"
    by (auto simp: n)
  then have "map ?f (map int [0 ..< m]) =
             replicate (length (map int [0 ..< m])) [Query domain, Sleep delay]"
    by (rule map_all_same)
  then have body: "map ?f (map int [0 ..< m]) = replicate m [Query domain, Sleep delay]"
    by simp
  have last: "?f (int m) = [Query domain]" by (simp add: n)
  have "concat (map ?f (range n)) = concat (map ?f (map int [0 ..< m])) @ ?f (int m)"
    unfolding r by simp
  also have "\<dots> = concat (replicate m [Query domain, Sleep delay]) @ [Query domain]"
    unfolding body last ..
  finally show ?thesis by (simp add: m)
qed

text \<open>
  Claim C8, as the script has it. For an iteration count of at least one, and as long as
  no run of \<^verbatim>\<open>dig\<close> raises anything but a timeout, a quick test completes; it issues
  exactly that many probes, one after the other; it prints exactly that many query lines,
  numbered from 1; the latency on each line is that of the corresponding probe, failed or
  not, so a failed probe is recorded once and not retried; its label is \<^verbatim>\<open>Cached\<close> or
  \<^verbatim>\<open>Fresh\<close> by its latency and never \<^verbatim>\<open>Error\<close>; and the pause follows every probe
  except the last one.
\<close>

theorem test_domain_cache_probes:
  assumes "1 \<le> n" and "\<forall>k < nat n. \<not> isl (nth_sample w (issued w + k))"
  shows "\<exists>rep w'. test_domain_cache domain n delay w = (Inr rep, w') \<and>
           length (queries rep) = nat n \<and>
           map fst (queries rep) = map (\<lambda>i. i + 1) (range n) \<and>
           map (fst \<circ> snd) (queries rep) =
             map (\<lambda>k. time_ms (projr (nth_sample w k))) [issued w ..< issued w + nat n] \<and>
           (\<forall>q \<in> set (queries rep).
              fst (snd (snd q)) = (if fst (snd q) < 5 then Cached else Fresh) \<and>
              fst (snd (snd q)) \<noteq> Error) \<and>
           issued w' = issued w + nat n \<and>
           events w' = events w @
             concat (replicate (nat n - 1) [Query domain, Sleep delay]) @ [Query domain]"
proof -
  have len: "length (range n) = nat n" by (simp add: range_def)
  from assms(2) have pre: "\<forall>k < length (range n). \<not> isl (nth_sample w (issued w + k))"
    by (simp only: len)
  from query_loop_run [OF pre, of domain n delay "([], [])"] obtain acc' w' where
    run: "query_loop domain n delay (range n) ([], []) w = (Inr acc', w')" and
    tms: "fst acc' = fst ([]::real list, []::query_line list) @
            map (\<lambda>k. time_ms (projr (nth_sample w k))) [issued w ..< issued w + length (range n)]" and
    idx: "map fst (snd acc') = map fst (snd ([]::real list, []::query_line list)) @ map (\<lambda>i. i + 1) (range n)" and
    lat: "map (fst \<circ> snd) (snd acc') = map (fst \<circ> snd) (snd ([]::real list, []::query_line list)) @
            map (\<lambda>k. time_ms (projr (nth_sample w k))) [issued w ..< issued w + length (range n)]" and
    iss: "issued w' = issued w + length (range n)" and
    evs: "events w' = events w @
             concat (map (\<lambda>i. if i < n - 1 then [Query domain, Sleep delay]
                               else [Query domain]) (range n))"
    by blast
  from tms assms(1) have ne: "fst acc' \<noteq> []" by (simp add: len)
  then obtain t ts where tts: "fst acc' = t # ts" by (cases "fst acc'") auto
  obtain rule where rule: "get_cache_rule (defaults_read w DomainCacheRules) domain = Inr rule"
    using get_cache_rule_total by blast
  define rep where "rep = \<lparr>cache_enabled = cache_enabled_text w,
                          cache_rule = printed_rule rule,
                          queries = snd acc',
                          summary = (foldl min t ts, foldl max t ts,
                             sum_list (fst acc') / real (length (fst acc')), median (fst acc')),
                          detected = detect_caching (fst acc')\<rparr>"
  have res: "test_domain_cache domain n delay w = (Inr rep, w')"
    by (cases acc') (use run rule tts in \<open>simp add: test_domain_cache_def statistics_def rep_def\<close>)
  have q: "queries rep = snd acc'" by (simp add: rep_def)
  have "length (queries rep) = length (map fst (snd acc'))" by (simp add: q)
  also have "\<dots> = nat n" unfolding idx by (simp add: len)
  finally have l: "length (queries rep) = nat n" .
  have i: "map fst (queries rep) = map (\<lambda>i. i + 1) (range n)"
    unfolding q idx by simp
  have la: "map (fst \<circ> snd) (queries rep) =
             map (\<lambda>k. time_ms (projr (nth_sample w k))) [issued w ..< issued w + nat n]"
    unfolding q lat len by simp
  have isd: "issued w' = issued w + nat n" using iss by (simp only: len)
  have ev: "events w' = events w @
             concat (replicate (nat n - 1) [Query domain, Sleep delay]) @ [Query domain]"
    unfolding evs probe_trace [OF assms(1)] ..
  have "list_all (\<lambda>q. fst (snd (snd q)) = (if fst (snd q) < 5 then Cached else Fresh) \<and>
                       fst (snd (snd q)) \<noteq> Error) (snd acc')"
    by (rule query_loop_lines [OF run]) (simp_all add: cache_indicator_def query_line_of_def)
  then have lb: "\<forall>q \<in> set (queries rep).
              fst (snd (snd q)) = (if fst (snd q) < 5 then Cached else Fresh) \<and>
              fst (snd (snd q)) \<noteq> Error"
    unfolding q by (simp only: list_all_iff)
  from res l i la lb isd ev show ?thesis by blast
qed

theorem test_domain_cache_probes_witness:
  "events (snd (test_domain_cache ''example.com'' 3 (1 / 10) flaky_world)) =
     [Query ''example.com'', Sleep (1 / 10), Query ''example.com'', Sleep (1 / 10),
      Query ''example.com''] \<and>
   map (fst \<circ> snd) (queries (projr (fst (test_domain_cache ''example.com'' 3 (1 / 10) flaky_world)))) =
     [1, 5000, 1] \<and>
   map (fst \<circ> snd \<circ> snd)
     (queries (projr (fst (test_domain_cache ''example.com'' 3 (1 / 10) flaky_world)))) =
     [Cached, Fresh, Cached]"
proof -
  have n: "(1::int) \<le> 3" by simp
  have ok: "\<forall>k < nat 3. \<not> isl (nth_sample flaky_world (issued flaky_world + k))"
    by (simp add: flaky_world_def nth_sample_def query_dns_def)
  from test_domain_cache_probes [OF n ok, of "''example.com''" "1 / 10"] obtain rep w' where
    res: "test_domain_cache ''example.com'' 3 (1 / 10) flaky_world = (Inr rep, w')" and
    lat: "map (fst \<circ> snd) (queries rep) =
             map (\<lambda>k. time_ms (projr (nth_sample flaky_world k)))
               [issued flaky_world ..< issued flaky_world + nat 3]" and
    ev: "events w' = events flaky_world @
             concat (replicate (nat 3 - 1) [Query ''example.com'', Sleep (1 / 10)]) @
             [Query ''example.com'']"
    by blast
  have a: "events w' = [Query ''example.com'', Sleep (1 / 10), Query ''example.com'',
      Sleep (1 / 10), Query ''example.com'']"
    unfolding ev by (simp add: flaky_world_def eval_nat_numeral)
  have b: "map (fst \<circ> snd) (queries rep) = [1, 5000, 1]"
    unfolding lat by (simp add: flaky_world_def nth_sample_def query_dns_def eval_nat_numeral upt_rec)
  have c: "map (fst \<circ> snd \<circ> snd)
     (queries (projr (fst (test_domain_cache ''example.com'' 3 (1 / 10) flaky_world)))) =
     [Cached, Fresh, Cached]"
    by code_simp
  from res a b c show ?thesis by simp
qed

text \<open>
  Claim C8 as stated fails. When the second of three \<^verbatim>\<open>dig\<close> runs raises, the test
  ends with that exception after two probes and returns no sample. When the second run
  times out, its sample carries the error text \<^verbatim>\<open>Timeout\<close> and is recorded with the
  label \<^verbatim>\<open>Fresh\<close>, not \<^verbatim>\<open>Error\<close>.
\<close>

theorem raised_probe_counterexample:
  "fst (test_domain_cache ''example.com'' 3 (1 / 10) raising_world) = Inl OSError \<and>
   events (snd (test_domain_cache ''example.com'' 3 (1 / 10) raising_world)) =
     [Query ''example.com'', Sleep (1 / 10), Query ''example.com''] \<and>
   error (projr (nth_sample flaky_world 1)) = Some ''Timeout'' \<and>
   map (fst \<circ> snd \<circ> snd)
     (queries (projr (fst (test_domain_cache ''example.com'' 3 (1 / 10) flaky_world)))) =
     [Cached, Fresh, Cached] \<and>
   Fresh \<noteq> Error"
  by code_simp

section \<open>The comparison run\<close>

text \<open>
  Claim C1, evaluated. Started with user-adjustable caching switched off and with every
  probe answering, the comparison ends with the flag switched on: the last write is a
  fixed \<^verbatim>\<open>YES\<close>, although the comment above it reads "Re-enable if it was enabled
  before". Started with the flag switched on and interrupted during the second test, it
  ends with the flag switched off: the last write is not reached.
\<close>

theorem compare_overwrites_flag:
  "store steady_world UserCanAdjustCache = Some ''0'' \<and>
   \<not> isl (fst (compare ''example.com'' steady_world)) \<and>
   store (snd (compare ''example.com'' steady_world)) UserCanAdjustCache = Some ''1'' \<and>
   store interrupted_world UserCanAdjustCache = Some ''1'' \<and>
   fst (compare ''example.com'' interrupted_world) = Inl OSError \<and>
   store (snd (compare ''example.com'' interrupted_world)) UserCanAdjustCache = Some ''0''"
  by code_simp

section \<open>Rule lookup\<close>







lemma collect_window_lines:
  "\<forall>j \<in> set js. j < length lines \<Longrightarrow>
   collect_window lines js r = collect_lines (map ((!) lines) js) r"
  by (induction js arbitrary: r) (auto split: sum.splits)

lemma window_slice:
  "map ((!) lines) [i ..< min (i + 5) (length lines)] = take 5 (drop i lines)"
proof (rule nth_equalityI)
  show "length (map ((!) lines) [i ..< min (i + 5) (length lines)]) =
        length (take 5 (drop i lines))"
    by (auto simp: min_def)
next
  fix k
  assume "k < length (map ((!) lines) [i ..< min (i + 5) (length lines)])"
  then have k: "k < 5" "i + k < length lines" by (simp_all add: min_def split: if_splits)
  then show "map ((!) lines) [i ..< min (i + 5) (length lines)] ! k =
             take 5 (drop i lines) ! k"
    by simp
qed

lemma scan_lines_first_match:
  "scan_lines domain (pre @ rest) (length pre) rest =
     (case dropWhile (\<lambda>l. \<not> line_matches domain l) rest of
        [] \<Rightarrow> Inr None
      | l # ls \<Rightarrow> map_sum id Some (collect_lines (take 5 (l # ls)) empty_rule))"
proof (induction rest arbitrary: pre)
  case Nil
  then show ?case by simp
next
  case (Cons l rest)
  show ?case
  proof (cases "line_matches domain l")
    case True
    have "collect_window (pre @ l # rest)
            [length pre ..< min (length pre + 5) (length (pre @ l # rest))] empty_rule =
          collect_lines (map ((!) (pre @ l # rest))
            [length pre ..< min (length pre + 5) (length (pre @ l # rest))]) empty_rule"
      by (rule collect_window_lines) simp
    also have "\<dots> = collect_lines (take 5 (drop (length pre) (pre @ l # rest))) empty_rule"
      by (simp only: window_slice)
    finally have "collect_window (pre @ l # rest)
            [length pre ..< min (length pre + 5) (length (pre @ l # rest))] empty_rule =
          collect_lines (take 5 (l # rest)) empty_rule"
      by simp
    with True show ?thesis by (simp split: sum.splits)
  next
    case False
    have "scan_lines domain (pre @ l # rest) (length pre) (l # rest) =
          scan_lines domain ((pre @ [l]) @ rest) (length (pre @ [l])) rest"
      using False by simp
    also have "\<dots> = (case dropWhile (\<lambda>l. \<not> line_matches domain l) rest of
        [] \<Rightarrow> Inr None
      | l # ls \<Rightarrow> map_sum id Some (collect_lines (take 5 (l # ls)) empty_rule))"
      by (rule Cons.IH)
    finally show ?thesis using False by simp
  qed
qed

lemma get_cache_rule_first_match:
  "get_cache_rule (Completed 0 out err) domain =
     Inr (case dropWhile (\<lambda>l. \<not> line_matches domain l) (split_on (CHR 0x0A) (strip out)) of
            [] \<Rightarrow> None
          | l # ls \<Rightarrow> (case collect_lines (take 5 (l # ls)) empty_rule of
                         Inl e \<Rightarrow> None
                       | Inr r \<Rightarrow> Some r))"
proof -
  have "scan_lines domain (split_on (CHR 0x0A) (strip out)) 0 (split_on (CHR 0x0A) (strip out)) =
        (case dropWhile (\<lambda>l. \<not> line_matches domain l) (split_on (CHR 0x0A) (strip out)) of
        [] \<Rightarrow> Inr None
      | l # ls \<Rightarrow> map_sum id Some (collect_lines (take 5 (l # ls)) empty_rule))"
    using scan_lines_first_match [of domain "[]" "split_on (CHR 0x0A) (strip out)"] by simp
  then have tried: "get_cache_rule_try (Completed 0 out err) domain =
        (case dropWhile (\<lambda>l. \<not> line_matches domain l) (split_on (CHR 0x0A) (strip out)) of
        [] \<Rightarrow> Inr None
      | l # ls \<Rightarrow> map_sum id Some (collect_lines (take 5 (l # ls)) empty_rule))"
    by (simp add: get_cache_rule_try_def Let_def)
  show ?thesis
  proof (cases "dropWhile (\<lambda>l. \<not> line_matches domain l) (split_on (CHR 0x0A) (strip out))")
    case Nil
    show ?thesis
      by (simp only: get_cache_rule_def tried Nil list.case sum.case)
  next
    case (Cons l ls)
    show ?thesis
    proof (cases "collect_lines (take 5 (l # ls)) empty_rule")
      case (Inl e)
      show ?thesis
        by (simp only: get_cache_rule_def tried Cons list.case Inl sum.case map_sum.simps)
    next
      case (Inr r)
      show ?thesis
        by (simp only: get_cache_rule_def tried Cons list.case Inr sum.case map_sum.simps)
    qed
  qed
qed

lemma first_match_split:
  "\<forall>p \<in> set pre. \<not> line_matches domain p \<Longrightarrow> line_matches domain l \<Longrightarrow>
   dropWhile (\<lambda>l. \<not> line_matches domain l) (pre @ l # post) = l # post"
  by (simp add: dropWhile_append3 dropWhile_eq_Nil_conv)

lemma collect_line_raises: "isl (collect_line x r) = isl (collect_line x r')"
  by (simp add: collect_line_def split: sum.splits)

lemma collect_lines_raises:
  "isl (collect_lines ls r) \<longleftrightarrow> (\<exists>x \<in> set ls. isl (collect_line x empty_rule))"
proof (induction ls arbitrary: r)
  case Nil
  then show ?case by simp
next
  case (Cons x ls)
  show ?case
  proof (cases "collect_line x r")
    case (Inl e)
    then have "isl (collect_line x r)" by simp
    then have "isl (collect_line x empty_rule)" using collect_line_raises by blast
    with Inl show ?thesis by simp
  next
    case (Inr r')
    then have "\<not> isl (collect_line x r)" by simp
    then have "\<not> isl (collect_line x empty_rule)" using collect_line_raises by blast
    with Inr Cons.IH [of r'] show ?thesis by simp
  qed
qed

lemma collect_lines_untouched:
  "\<forall>x \<in> set ls. \<not> contains ''action'' x \<and> \<not> contains ''ttl'' x \<Longrightarrow> collect_lines ls r = Inr r"
  by (induction ls) (simp_all add: collect_line_def)

lemma split_on_no_sep: "sep \<notin> set s \<Longrightarrow> split_on sep s = [s]"
  by (induction s) auto

lemma field_value_no_equals: "CHR ''='' \<notin> set x \<Longrightarrow> field_value x = Inl IndexError"
  by (simp add: field_value_def split_on_no_sep)

lemma collect_line_no_equals:
  "contains ''action'' x \<or> contains ''ttl'' x \<Longrightarrow> CHR ''='' \<notin> set x \<Longrightarrow>
   collect_line x r = Inl IndexError"
  by (auto simp: collect_line_def field_value_no_equals)



text \<open>
  Claim C10. When a line is selected and no line of its window contains \<^verbatim>\<open>action\<close>
  or \<^verbatim>\<open>ttl\<close>, the lookup returns a rule with no field, which is not the absent
  result. Both callers treat it as they treat the absent result: the quick test prints
  the default rule line, and the monitor takes 300 seconds as the TTL.
\<close>

theorem empty_rule_is_default:
  assumes "split_on (CHR 0x0A) (strip out) = pre @ l # post"
    and "\<forall>p \<in> set pre. \<not> line_matches domain p"
    and "line_matches domain l"
    and "\<forall>x \<in> set (take 5 (l # post)). \<not> contains ''action'' x \<and> \<not> contains ''ttl'' x"
  shows "get_cache_rule (Completed 0 out err) domain = Inr (Some empty_rule) \<and>
         Some empty_rule \<noteq> None \<and>
         action empty_rule = None \<and> ttl empty_rule = None \<and>
         printed_rule (Some empty_rule) = printed_rule None \<and>
         monitor_ttl (Some empty_rule) = 300 \<and> monitor_ttl None = 300"
proof -
  have "dropWhile (\<lambda>l. \<not> line_matches domain l) (split_on (CHR 0x0A) (strip out)) = l # post"
    unfolding assms(1) using assms(2,3) by (rule first_match_split)
  moreover have "collect_lines (take 5 (l # post)) empty_rule = Inr empty_rule"
    using assms(4) by (rule collect_lines_untouched)
  ultimately have "get_cache_rule (Completed 0 out err) domain = Inr (Some empty_rule)"
    by (simp only: get_cache_rule_first_match list.case sum.case)
  then show ?thesis
    by (simp add: empty_rule_def printed_rule_def truthy_def monitor_ttl_def)
qed

theorem empty_rule_is_default_witness:
  "get_cache_rule (Completed 0 bare_rule_text []) ''sub.example.com'' = Inr (Some empty_rule) \<and>
   printed_rule (Some empty_rule) = None \<and> monitor_ttl (Some empty_rule) = 300"
proof -
  have s: \<open>split_on (CHR 0x0A) (strip bare_rule_text) =
      [''{''] @ ''    "*.example.com" =     {'' # [''        enabled = 1;'', ''    };'', ''}'']\<close>
    by code_simp
  have p: "\<forall>p \<in> set [''{'']. \<not> line_matches ''sub.example.com'' p" by code_simp
  have m: \<open>line_matches ''sub.example.com'' ''    "*.example.com" =     {''\<close> by code_simp
  have f: \<open>\<forall>x \<in> set (take 5 (''    "*.example.com" =     {'' #
             [''        enabled = 1;'', ''    };'', ''}''])).
           \<not> contains ''action'' x \<and> \<not> contains ''ttl'' x\<close>
    by code_simp
  from empty_rule_is_default [OF s p m f, of "[]"] show ?thesis
    by (simp add: printed_rule_def truthy_def empty_rule_def)
qed

text \<open>
  Claim C4, as the script has it. The lookup never raises. When a line is selected, the
  result is absent exactly when some line of the window raises, and the fields collected
  before that line are dropped with it; otherwise the result holds the fields collected
  from the window. A line with \<^verbatim>\<open>ttl\<close> whose value is not an integer literal raises,
  and so does a line with \<^verbatim>\<open>action\<close> or \<^verbatim>\<open>ttl\<close> and no equals sign.
\<close>

theorem get_cache_rule_fails_soft:
  "(\<exists>res. get_cache_rule run domain = Inr res) \<and>
   (split_on (CHR 0x0A) (strip out) = pre @ l # post \<and>
    (\<forall>p \<in> set pre. \<not> line_matches domain p) \<and> line_matches domain l \<longrightarrow>
      (get_cache_rule (Completed 0 out err) domain = Inr None \<longleftrightarrow>
         (\<exists>x \<in> set (take 5 (l # post)). isl (collect_line x empty_rule))) \<and>
      ((\<forall>x \<in> set (take 5 (l # post)). \<not> isl (collect_line x empty_rule)) \<longrightarrow>
         (\<exists>r. collect_lines (take 5 (l # post)) empty_rule = Inr r \<and>
              get_cache_rule (Completed 0 out err) domain = Inr (Some r)))) \<and>
   (\<not> contains ''action'' x \<and> contains ''ttl'' x \<and> field_value x = Inr v \<and>
    py_int (strip_chars [CHR '' '', CHR '';''] v) = Inl e \<longrightarrow> collect_line x r = Inl e) \<and>
   ((contains ''action'' y \<or> contains ''ttl'' y) \<and> CHR ''='' \<notin> set y \<longrightarrow>
      collect_line y r = Inl IndexError)"
proof -
  have a: "\<exists>res. get_cache_rule run domain = Inr res" by (rule get_cache_rule_total)
  have d: "collect_line y r = Inl IndexError"
    if "contains ''action'' y \<or> contains ''ttl'' y" "CHR ''='' \<notin> set y"
    using that by (rule collect_line_no_equals)
  have b: "(get_cache_rule (Completed 0 out err) domain = Inr None \<longleftrightarrow>
         (\<exists>x \<in> set (take 5 (l # post)). isl (collect_line x empty_rule))) \<and>
      ((\<forall>x \<in> set (take 5 (l # post)). \<not> isl (collect_line x empty_rule)) \<longrightarrow>
         (\<exists>r. collect_lines (take 5 (l # post)) empty_rule = Inr r \<and>
              get_cache_rule (Completed 0 out err) domain = Inr (Some r)))"
    if sp: "split_on (CHR 0x0A) (strip out) = pre @ l # post"
      and pre: "\<forall>p \<in> set pre. \<not> line_matches domain p" and m: "line_matches domain l"
  proof -
    have dw: "dropWhile (\<lambda>l. \<not> line_matches domain l) (split_on (CHR 0x0A) (strip out)) = l # post"
      unfolding sp using pre m by (rule first_match_split)
    show ?thesis
    proof (cases "collect_lines (take 5 (l # post)) empty_rule")
      case (Inl e)
      then have "isl (collect_lines (take 5 (l # post)) empty_rule)" by simp
      then have ex: "\<exists>x \<in> set (take 5 (l # post)). isl (collect_line x empty_rule)"
        by (simp only: collect_lines_raises)
      have "get_cache_rule (Completed 0 out err) domain = Inr None"
        by (simp only: get_cache_rule_first_match dw list.case Inl sum.case)
      with ex show ?thesis by blast
    next
      case (Inr r)
      then have "\<not> isl (collect_lines (take 5 (l # post)) empty_rule)" by simp
      with collect_lines_raises [of "take 5 (l # post)" empty_rule]
      have nex: "\<not> (\<exists>x \<in> set (take 5 (l # post)). isl (collect_line x empty_rule))"
        by blast
      have some: "get_cache_rule (Completed 0 out err) domain = Inr (Some r)"
        by (simp only: get_cache_rule_first_match dw list.case Inr sum.case)
      then have "get_cache_rule (Completed 0 out err) domain \<noteq> Inr None" by simp
      with nex Inr some show ?thesis by blast
    qed
  qed
  have c: "collect_line x r = Inl e"
    if "\<not> contains ''action'' x" "contains ''ttl'' x" "field_value x = Inr v"
       "py_int (strip_chars [CHR '' '', CHR '';''] v) = Inl e"
    using that by (simp add: collect_line_def)
  from a b c d show ?thesis by blast
qed

theorem get_cache_rule_fails_soft_witness:
  \<open>get_cache_rule (Completed 0 quoted_ttl_text []) ''sub.example.com'' = Inr None \<and>
   collect_line ''        ttl = "120";'' \<lparr>action = Some ''block'', ttl = None\<rparr> = Inl ValueError\<close>
proof -
  have s: \<open>split_on (CHR 0x0A) (strip quoted_ttl_text) =
      [''{''] @ ''    "*.example.com" =     {'' #
        [''        action = "block";'', ''        ttl = "120";'', ''    };'', ''}'']\<close>
    by code_simp
  have p: "\<forall>p \<in> set [''{'']. \<not> line_matches ''sub.example.com'' p" by code_simp
  have m: \<open>line_matches ''sub.example.com'' ''    "*.example.com" =     {''\<close> by code_simp
  have x: \<open>\<exists>x \<in> set (take 5 (''    "*.example.com" =     {'' #
        [''        action = "block";'', ''        ttl = "120";'', ''    };'', ''}''])).
        isl (collect_line x empty_rule)\<close>
    by code_simp
  have t: \<open>\<not> contains ''action'' ''        ttl = "120";'' \<and> contains ''ttl'' ''        ttl = "120";'' \<and>
      field_value ''        ttl = "120";'' = Inr '' "120";'' \<and>
      py_int (strip_chars [CHR '' '', CHR '';''] '' "120";'') = Inl ValueError\<close>
    by code_simp
  from get_cache_rule_fails_soft [where domain = "''sub.example.com''"
      and out = quoted_ttl_text and pre = "[''{'']" and l = \<open>''    "*.example.com" =     {''\<close>
      and post = \<open>[''        action = "block";'', ''        ttl = "120";'', ''    };'', ''}'']\<close>
      and err = "[]" and x = \<open>''        ttl = "120";''\<close> and v = \<open>'' "120";''\<close>
      and e = ValueError and r = "\<lparr>action = Some ''block'', ttl = None\<rparr>"] s p m x t
  show ?thesis by blast
qed

text \<open>
  Claim C4 as stated fails: with the value of \<^verbatim>\<open>ttl\<close> in quotes the action has been
  collected when the \<^verbatim>\<open>ttl\<close> line is reached, and the lookup returns the absent result.
\<close>

theorem collected_action_discarded_counterexample:
  \<open>collect_lines [''    "*.example.com" =     {'', ''        action = "block";''] empty_rule =
     Inr \<lparr>action = Some ''block'', ttl = None\<rparr> \<and>
   get_cache_rule (Completed 0 quoted_ttl_text []) ''sub.example.com'' = Inr None\<close>
  by code_simp

end
